theory Spec2Isabelle
  imports
    Complex_Main
    "HOL-Library.List_Lexorder"
    "HOL-Library.Product_Lexorder"
    "HOL-Library.Multiset"
begin

section \<open>Python strings\<close>

text \<open>
  A Python \<open>str\<close> is a sequence of Unicode code points: \<open>len\<close> counts code points
  and \<open>sort\<close> compares strings code point by code point. A string is therefore a list of
  natural numbers, ordered lexicographically. \<open>ustr\<close> writes an ASCII literal; the
  box-drawing glyphs and emoji of the scripts are given by their code points.
\<close>

type_synonym str = "nat list"

definition ustr :: "string \<Rightarrow> str" where
  "ustr s = map of_char s"

text \<open>\<open>s.startswith(p)\<close>.\<close>

definition startswith :: "str \<Rightarrow> str \<Rightarrow> bool" where
  "startswith s p = (take (length p) s = p)"

text \<open>The code points that \<open>str.strip()\<close> removes (those with \<open>str.isspace\<close>).\<close>

definition isspace :: "nat \<Rightarrow> bool" where
  "isspace c =
     ((0x09 \<le> c \<and> c \<le> 0x0D) \<or> (0x1C \<le> c \<and> c \<le> 0x20) \<or> c = 0x85 \<or> c = 0xA0
      \<or> c = 0x1680 \<or> (0x2000 \<le> c \<and> c \<le> 0x200A) \<or> c = 0x2028 \<or> c = 0x2029
      \<or> c = 0x202F \<or> c = 0x205F \<or> c = 0x3000)"

definition strip_where :: "(nat \<Rightarrow> bool) \<Rightarrow> str \<Rightarrow> str" where
  "strip_where P s = rev (dropWhile P (rev (dropWhile P s)))"

text \<open>\<open>s.strip()\<close> and \<open>s.strip(chars)\<close>.\<close>

definition strip :: "str \<Rightarrow> str" where
  "strip s = strip_where isspace s"

definition strip_chars :: "str \<Rightarrow> str \<Rightarrow> str" where
  "strip_chars chars s = strip_where (\<lambda>c. c \<in> set chars) s"

text \<open>\<open>sub in s\<close> for two strings.\<close>

definition contains_str :: "str \<Rightarrow> str \<Rightarrow> bool" where
  "contains_str sub s = list_ex (\<lambda>k. take (length sub) (drop k s) = sub) [0 ..< Suc (length s)]"

section \<open>The filesystem\<close>

text \<open>
  What the tree printers see of the filesystem below a path: a regular file, an entry that
  is neither a directory nor a regular file (a socket, a device, a dangling link), a
  directory whose listing is refused, or a directory with its entries in the order
  \<open>os.listdir\<close> returns them. An entry is a name together with the node that
  \<open>os.path.join(path, name)\<close> resolves to. The trees are finite, so links that lead back to
  an ancestor are outside the model.
\<close>

datatype node = File | Special | Locked | Dir "(str \<times> node) list"

datatype error = PermissionError | NotADirectoryError | ValueError

fun listdir :: "node \<Rightarrow> error + (str \<times> node) list" where
  "listdir (Dir es) = Inr es"
| "listdir Locked = Inl PermissionError"
| "listdir File = Inl NotADirectoryError"
| "listdir Special = Inl NotADirectoryError"

fun isdir :: "node \<Rightarrow> bool" where
  "isdir (Dir es) = True"
| "isdir Locked = True"
| "isdir File = False"
| "isdir Special = False"

fun isfile :: "node \<Rightarrow> bool" where
  "isfile File = True"
| "isfile Special = False"
| "isfile Locked = False"
| "isfile (Dir es) = False"

text \<open>The number of entries below a node, each counted with its own subtree: the
  measure by which the traversals terminate.\<close>

fun weight :: "node \<Rightarrow> nat" where
  "weight (Dir es) = Suc (sum_list (map (\<lambda>e. Suc (weight (snd e))) es))"
| "weight File = 0"
| "weight Special = 0"
| "weight Locked = 0"

section \<open>The connectors\<close>

text \<open>The four string literals that all three printers share: the corner and branch
  connectors, and the blank and barred continuation prefixes. Each is four code points.\<close>

definition corner :: str where
  "corner = [0x2514, 0x2500, 0x2500] @ ustr '' ''"

definition branch :: str where
  "branch = [0x251C, 0x2500, 0x2500] @ ustr '' ''"

definition blank :: str where
  "blank = ustr ''    ''"

definition bar :: str where
  "bar = [0x2502] @ ustr ''   ''"

section \<open>tree.py: the console printer\<close>

definition exclude :: "str set" where
  "exclude = {ustr ''node_modules'', ustr ''.git''}"

text \<open>Lines 5 and 6: the listing without the excluded names, sorted by name.\<close>

definition tree_entries :: "(str \<times> node) list \<Rightarrow> (str \<times> node) list" where
  "tree_entries es = sort_key fst (filter (\<lambda>e. fst e \<notin> exclude) es)"

text \<open>
  \<open>tree\<close> prints as it goes and stops at the first exception, so its result is the lines
  printed together with the exception that ended it, if any. \<open>tree_loop\<close> is the
  \<open>for i, entry in enumerate(entries)\<close> loop, \<open>n\<close> being \<open>len(entries)\<close>.
\<close>

function tree :: "node \<Rightarrow> str \<Rightarrow> str list \<times> error option"
  and tree_loop :: "nat \<Rightarrow> (nat \<times> str \<times> node) list \<Rightarrow> str \<Rightarrow> str list \<times> error option"
where
  "tree path prefix =
     (case listdir path of
        Inl err \<Rightarrow> ([], Some err)
      | Inr es \<Rightarrow>
          (let entries = tree_entries es
           in tree_loop (length entries) (enumerate 0 entries) prefix))"
| "tree_loop n [] prefix = ([], None)"
| "tree_loop n ((i, entry, full) # rest) prefix =
     (let connector = (if int i = int n - 1 then corner else branch);
          line = prefix @ connector @ entry
      in if isdir full
         then (let extension = (if int i = int n - 1 then blank else bar)
               in case tree full (prefix @ extension) of
                    (out, Some err) \<Rightarrow> (line # out, Some err)
                  | (out, None) \<Rightarrow>
                      (case tree_loop n rest prefix of
                         (later, r) \<Rightarrow> (line # out @ later, r)))
         else (case tree_loop n rest prefix of
                 (later, r) \<Rightarrow> (line # later, r)))"
  by pat_completeness auto
termination
proof (relation "measure (\<lambda>x. case x of
          Inl (path, prefix) \<Rightarrow> weight path
        | Inr (n, l, prefix) \<Rightarrow> sum_list (map (\<lambda>e. Suc (weight (snd (snd e)))) l))",
        goal_cases)
  case (2 path prefix es entries)
  let ?g = "\<lambda>e::str \<times> node. Suc (weight (snd e))"
  have "map (\<lambda>e. Suc (weight (snd (snd e)))) (enumerate 0 entries)
          = map ?g (map snd (enumerate 0 entries))"
    by (simp only: map_map comp_def)
  then have "sum_list (map (\<lambda>e. Suc (weight (snd (snd e)))) (enumerate 0 entries))
          = sum_mset (image_mset ?g (mset entries))"
    by (simp add: sum_mset_sum_list [symmetric])
  also have "\<dots> = sum_list (map ?g (filter (\<lambda>e. fst e \<notin> exclude) es))"
    using 2 by (simp add: tree_entries_def sum_mset_sum_list [symmetric])
  also have "\<dots> \<le> sum_list (map ?g es)"
    by (rule sum_list_filter_le_nat)
  finally show ?case
    using 2 by (cases path) simp_all
qed auto

section \<open>tee.py: the image printer\<close>

text \<open>
  Lines 6 to 10: the listing without the skipped names, directories first and then by the
  lowercased name; Python's sort is stable, as \<open>sort_key\<close> is. \<open>str.lower\<close> is the
  interpreter's and is a parameter of the model.
\<close>

definition build_tree_entries :: "(str \<Rightarrow> str) \<Rightarrow> (str \<times> node) list \<Rightarrow> (str \<times> node) list" where
  "build_tree_entries lower es =
     sort_key (\<lambda>e. (\<not> isdir (snd e), lower (fst e)))
       (filter (\<lambda>e. fst e \<notin> set [ustr ''node_modules'', ustr ''.git'']
                    \<and> \<not> startswith (fst e) (ustr ''.git'')
                    \<and> fst e \<noteq> ustr ''tee.py'') es)"

text \<open>\<open>build_tree\<close> returns its lines, or raises: an exception of a recursive call
  leaves through every caller, and no lines are returned.\<close>

function build_tree :: "(str \<Rightarrow> str) \<Rightarrow> node \<Rightarrow> str \<Rightarrow> error + str list"
  and build_tree_loop ::
    "(str \<Rightarrow> str) \<Rightarrow> nat \<Rightarrow> (nat \<times> str \<times> node) list \<Rightarrow> str \<Rightarrow> error + str list"
where
  "build_tree lower root' prefix =
     (case listdir root' of
        Inl err \<Rightarrow> Inl err
      | Inr es \<Rightarrow>
          (let entries = build_tree_entries lower es
           in build_tree_loop lower (length entries) (enumerate 0 entries) prefix))"
| "build_tree_loop lower n [] prefix = Inr []"
| "build_tree_loop lower n ((i, entry, path) # rest) prefix =
     (let connector = (if int i = int n - 1 then corner else branch);
          line = prefix @ connector @ entry
      in if isdir path
         then (let extension = (if int i = int n - 1 then blank else bar)
               in case build_tree lower path (prefix @ extension) of
                    Inl err \<Rightarrow> Inl err
                  | Inr sub \<Rightarrow>
                      (case build_tree_loop lower n rest prefix of
                         Inl err \<Rightarrow> Inl err
                       | Inr later \<Rightarrow> Inr (line # sub @ later)))
         else (case build_tree_loop lower n rest prefix of
                 Inl err \<Rightarrow> Inl err
               | Inr later \<Rightarrow> Inr (line # later)))"
  by pat_completeness auto
termination
proof (relation "measure (\<lambda>x. case x of
          Inl (lower, root', prefix) \<Rightarrow> weight root'
        | Inr (lower, n, l, prefix) \<Rightarrow> sum_list (map (\<lambda>e. Suc (weight (snd (snd e)))) l))",
        goal_cases)
  case (2 lower root' prefix es entries)
  let ?g = "\<lambda>e::str \<times> node. Suc (weight (snd e))"
  have "map (\<lambda>e. Suc (weight (snd (snd e)))) (enumerate 0 entries)
          = map ?g (map snd (enumerate 0 entries))"
    by (simp only: map_map comp_def)
  then have "sum_list (map (\<lambda>e. Suc (weight (snd (snd e)))) (enumerate 0 entries))
          = sum_mset (image_mset ?g (mset entries))"
    by (simp add: sum_mset_sum_list [symmetric])
  also have "\<dots> = sum_list (map ?g (filter (\<lambda>e. fst e \<notin> set [ustr ''node_modules'', ustr ''.git'']
                    \<and> \<not> startswith (fst e) (ustr ''.git'')
                    \<and> fst e \<noteq> ustr ''tee.py'') es))"
    using 2 by (simp add: build_tree_entries_def sum_mset_sum_list [symmetric])
  also have "\<dots> \<le> sum_list (map ?g es)"
    by (rule sum_list_filter_le_nat)
  finally show ?case
    using 2 by (cases root') simp_all
qed auto

text \<open>
  The font is Pillow's: \<open>getlength\<close> gives the advance width of a string as a float and
  \<open>getbbox\<close> its bounding box \<open>(left, top, right, bottom)\<close>. Whether the console font
  or the default font is loaded (lines 27 to 30) is the environment's choice, so the font is
  a parameter. Widths are real numbers; \<open>int(x)\<close> truncates towards zero.
\<close>

record font =
  getlength :: "str \<Rightarrow> real"
  getbbox :: "str \<Rightarrow> int \<times> int \<times> int \<times> int"

definition py_int :: "real \<Rightarrow> int" where
  "py_int x = (if 0 \<le> x then \<lfloor>x\<rfloor> else \<lceil>x\<rceil>)"

text \<open>\<open>max\<close> of a sequence: \<open>ValueError\<close> on an empty one.\<close>

fun py_max :: "real list \<Rightarrow> error + real" where
  "py_max [] = Inl ValueError"
| "py_max (x # xs) = Inr (fold max xs x)"

text \<open>The image: its size, and the \<open>draw.text\<close> calls in order, each with its position.\<close>

record image =
  size_px :: "int \<times> int"
  texts :: "((int \<times> int) \<times> str) list"

text \<open>Lines 43 to 46: the loop that draws the lines, \<open>y\<close> being its running variable.\<close>

fun draw_lines :: "int \<Rightarrow> int \<Rightarrow> str list \<Rightarrow> ((int \<times> int) \<times> str) list" where
  "draw_lines line_height y [] = []"
| "draw_lines line_height y (line # rest) =
     ((10, y), line) # draw_lines line_height (y + line_height) rest"

text \<open>Lines 32 to 46 of \<open>tree_to_jpg\<close>: the size of the image and the drawing of the
  lines. \<open>Image.new\<close> is taken to create an image of the size it is asked for.\<close>

definition render_lines :: "font \<Rightarrow> str list \<Rightarrow> error + image" where
  "render_lines fnt lines =
     (case py_max (map (getlength fnt) lines) of
        Inl err \<Rightarrow> Inl err
      | Inr max_width \<Rightarrow>
          (let line_height = snd (snd (snd (getbbox fnt (ustr ''Ay'')))) + 4;
               img_height = line_height * int (length lines) + 10;
               img_width = py_int max_width + 20
           in Inr \<lparr>size_px = (img_width, img_height), texts = draw_lines line_height 5 lines\<rparr>))"

text \<open>
  \<open>tree_to_jpg\<close>: the lines are the root's name followed by the tree below it. The name
  is \<open>os.path.basename\<close> of the path string and is given with the root. The result is the
  file written, the image saved in it and the line printed.
\<close>

definition tree_to_jpg ::
  "(str \<Rightarrow> str) \<Rightarrow> font \<Rightarrow> str \<Rightarrow> node \<Rightarrow> str \<Rightarrow> error + (str \<times> image \<times> str)" where
  "tree_to_jpg lower fnt root_name root_directory output_file =
     (case build_tree lower root_directory [] of
        Inl err \<Rightarrow> Inl err
      | Inr tree_lines \<Rightarrow>
          (case render_lines fnt ([root_name] @ tree_lines) of
             Inl err \<Rightarrow> Inl err
           | Inr img \<Rightarrow> Inr (output_file, img, ustr ''Saved tree to '' @ output_file)))"

section \<open>zprj\_tree.py: the icon printer\<close>

definition SKIP :: "str set" where
  "SKIP = {ustr ''node_modules'', ustr ''.git'', ustr ''__pycache__''}"

definition folder_icon :: str where
  "folder_icon = [0x1F4C1] @ ustr '' ''"

definition file_icon :: str where
  "file_icon = [0x1F4C4] @ ustr '' ''"

text \<open>Lines 9, 13 and 14: the directories of the sorted listing that are not skipped,
  and its regular files.\<close>

definition print_tree_dirs :: "(str \<times> node) list \<Rightarrow> (str \<times> node) list" where
  "print_tree_dirs es =
     (let entries = sort_key fst es
      in filter (\<lambda>d. isdir (snd d) \<and> fst d \<notin> SKIP) entries)"

definition print_tree_files :: "(str \<times> node) list \<Rightarrow> (str \<times> node) list" where
  "print_tree_files es =
     (let entries = sort_key fst es
      in filter (\<lambda>f. isfile (snd f)) entries)"

text \<open>
  \<open>print_tree\<close> prints as it goes; only \<open>PermissionError\<close> is caught around the listing.
\<close>

function print_tree :: "node \<Rightarrow> str \<Rightarrow> str list \<times> error option"
  and print_tree_loop ::
    "nat \<Rightarrow> (nat \<times> str \<times> node) list \<Rightarrow> str \<Rightarrow> str list \<times> error option"
where
  "print_tree start_path prefix =
     (case listdir start_path of
        Inl err \<Rightarrow> (if err = PermissionError then ([], None) else ([], Some err))
      | Inr es \<Rightarrow>
          (let dirs = print_tree_dirs es;
               files = print_tree_files es;
               total' = length dirs + length files
           in print_tree_loop total' (enumerate 0 (dirs @ files)) prefix))"
| "print_tree_loop total' [] prefix = ([], None)"
| "print_tree_loop total' ((index, name, path) # rest) prefix =
     (let connector = (if int index = int total' - 1 then corner else branch)
      in if isdir path
         then (let line = prefix @ connector @ folder_icon @ name;
                   new_prefix = prefix @ (if int index = int total' - 1 then blank else bar)
               in case print_tree path new_prefix of
                    (out, Some err) \<Rightarrow> (line # out, Some err)
                  | (out, None) \<Rightarrow>
                      (case print_tree_loop total' rest prefix of
                         (later, r) \<Rightarrow> (line # out @ later, r)))
         else (let line = prefix @ connector @ file_icon @ name
               in case print_tree_loop total' rest prefix of
                    (later, r) \<Rightarrow> (line # later, r)))"
  by pat_completeness auto
termination
proof (relation "measure (\<lambda>x. case x of
          Inl (start_path, prefix) \<Rightarrow> weight start_path
        | Inr (total', l, prefix) \<Rightarrow> sum_list (map (\<lambda>e. Suc (weight (snd (snd e)))) l))",
        goal_cases)
  case (2 start_path prefix es dirs files total')
  let ?g = "\<lambda>e::str \<times> node. Suc (weight (snd e))"
  let ?s = "filter (\<lambda>e. (isdir (snd e) \<and> fst e \<notin> SKIP) \<or> isfile (snd e)) es"
  have "map (\<lambda>e. Suc (weight (snd (snd e)))) (enumerate 0 (dirs @ files))
          = map ?g (map snd (enumerate 0 (dirs @ files)))"
    by (simp only: map_map comp_def)
  then have "sum_list (map (\<lambda>e. Suc (weight (snd (snd e)))) (enumerate 0 (dirs @ files)))
          = sum_mset (image_mset ?g (mset (dirs @ files)))"
    by (simp add: sum_mset_sum_list [symmetric])
  also have "mset (dirs @ files) = mset ?s"
  proof -
    have "filter_mset (\<lambda>d. isdir (snd d) \<and> fst d \<notin> SKIP) (mset es)
            + filter_mset (\<lambda>f. isfile (snd f)) (mset es)
          = filter_mset (\<lambda>e. (isdir (snd e) \<and> fst e \<notin> SKIP) \<or> isfile (snd e)) (mset es)"
      by (induction es) (auto elim: isfile.elims)
    then show ?thesis
      using 2 by (simp add: print_tree_dirs_def print_tree_files_def)
  qed
  also have "sum_mset (image_mset ?g (mset ?s)) = sum_list (map ?g ?s)"
    by (simp add: sum_mset_sum_list [symmetric])
  also have "\<dots> \<le> sum_list (map ?g es)"
    by (rule sum_list_filter_le_nat)
  finally show ?case
    using 2 by (cases start_path) simp_all
qed auto

section \<open>The HTTP scripts\<close>

subsection \<open>Python values and exceptions\<close>

text \<open>A value that \<open>response.json()\<close> returns. An object is a Python \<open>dict\<close>: its keys
  are distinct.\<close>

datatype json =
    JNull | JBool bool | JInt int | JFloat real | JStr str
  | JArr "json list" | JObj "(str \<times> json) list"

text \<open>
  The exceptions of the two scripts. \<open>Timeout\<close>, \<open>ConnectionError\<close> (standing for any
  other failure of the request) and \<open>JSONDecodeError\<close> are \<open>requests\<close>' and derive from
  its \<open>RequestException\<close>; \<open>KeyboardInterrupt\<close> is the one that does not derive from
  \<open>Exception\<close>.
\<close>

datatype exc =
    Timeout | ConnectionError | JSONDecodeError
  | KeyError | IndexError | TypeError | AttributeError
  | KeyboardInterrupt

definition is_Timeout :: "exc \<Rightarrow> bool" where
  "is_Timeout e = (e = Timeout)"

definition is_RequestException :: "exc \<Rightarrow> bool" where
  "is_RequestException e = (e = Timeout \<or> e = ConnectionError \<or> e = JSONDecodeError)"

definition is_Exception :: "exc \<Rightarrow> bool" where
  "is_Exception e = (e \<noteq> KeyboardInterrupt)"

text \<open>\<open>key in v\<close>, \<open>v[key]\<close> and \<open>v[0]\<close> for a string \<open>key\<close>, and
  \<open>v.strip().strip('"')\<close>.\<close>

fun py_in :: "str \<Rightarrow> json \<Rightarrow> exc + bool" where
  "py_in key (JObj kvs) = Inr (key \<in> set (map fst kvs))"
| "py_in key (JArr xs) = Inr (JStr key \<in> set xs)"
| "py_in key (JStr s) = Inr (contains_str key s)"
| "py_in key JNull = Inl TypeError"
| "py_in key (JBool b) = Inl TypeError"
| "py_in key (JInt n) = Inl TypeError"
| "py_in key (JFloat x) = Inl TypeError"

fun py_getitem :: "json \<Rightarrow> str \<Rightarrow> exc + json" where
  "py_getitem (JObj kvs) key = (case map_of kvs key of None \<Rightarrow> Inl KeyError | Some v \<Rightarrow> Inr v)"
| "py_getitem (JArr xs) key = Inl TypeError"
| "py_getitem (JStr s) key = Inl TypeError"
| "py_getitem JNull key = Inl TypeError"
| "py_getitem (JBool b) key = Inl TypeError"
| "py_getitem (JInt n) key = Inl TypeError"
| "py_getitem (JFloat x) key = Inl TypeError"

fun py_getitem0 :: "json \<Rightarrow> exc + json" where
  "py_getitem0 (JArr []) = Inl IndexError"
| "py_getitem0 (JArr (x # xs)) = Inr x"
| "py_getitem0 (JStr []) = Inl IndexError"
| "py_getitem0 (JStr (c # cs)) = Inr (JStr [c])"
| "py_getitem0 (JObj kvs) = Inl KeyError"
| "py_getitem0 JNull = Inl TypeError"
| "py_getitem0 (JBool b) = Inl TypeError"
| "py_getitem0 (JInt n) = Inl TypeError"
| "py_getitem0 (JFloat x) = Inl TypeError"

fun strip_quoted :: "json \<Rightarrow> exc + str" where
  "strip_quoted (JStr s) = Inr (strip_chars [0x22] (strip s))"
| "strip_quoted (JArr xs) = Inl AttributeError"
| "strip_quoted (JObj kvs) = Inl AttributeError"
| "strip_quoted JNull = Inl AttributeError"
| "strip_quoted (JBool b) = Inl AttributeError"
| "strip_quoted (JInt n) = Inl AttributeError"
| "strip_quoted (JFloat x) = Inl AttributeError"

subsection \<open>Requests, replies and what a script does\<close>

record request =
  url :: str
  headers :: "(str \<times> str) list"
  json_payload :: json
  timeout :: "nat option"

text \<open>A response as the scripts read it: \<open>json_body\<close> is what \<open>response.json()\<close>
  returns, \<open>None\<close> when the body is not JSON and the call raises.\<close>

record response =
  status_code :: int
  json_body :: "json option"
  body_text :: str

definition ok :: "response \<Rightarrow> bool" where
  "ok r = (\<not> (400 \<le> status_code r \<and> status_code r < 600))"

text \<open>
  \<open>requests.post\<close> is the library's. What the endpoint does with one request is the
  environment's: it answers, the call fails with an exception, or no answer ever comes. In
  the last case the call raises \<open>Timeout\<close> once the given timeout has passed; with no
  timeout the library waits without limit and the call does not return, which is the
  result \<open>None\<close>.
\<close>

datatype reply = Responds response | Fails exc | NoReply

definition post :: "request \<Rightarrow> reply \<Rightarrow> (exc + response) option" where
  "post req rep =
     (case rep of
        Responds r \<Rightarrow> Some (Inr r)
      | Fails e \<Rightarrow> Some (Inl e)
      | NoReply \<Rightarrow> (case timeout req of None \<Rightarrow> None | Some t \<Rightarrow> Some (Inl Timeout)))"

text \<open>
  What a script does: the lines it prints, each the parts of its format string (literal
  text, an integer, the elapsed time read from the clock, \<open>json.dumps\<close> or \<open>str\<close> of a
  value, \<open>str\<close> of an exception), and its sleeps. A run ends by returning, by an exception
  that nothing caught, or never.
\<close>

datatype piece = S str | I int | Elapsed | Dumps json | Str json | E exc

datatype event = Print "piece list" | Sleep nat

datatype finish = Returns | Raises exc | Blocks

subsection \<open>ai.py: the smoke test\<close>

text \<open>The API key is a literal of the source; the model takes it as a parameter.\<close>

definition BASE_URL :: str where
  "BASE_URL = ustr ''https://api.avalai.ir/v1''"

definition headers_of :: "str \<Rightarrow> (str \<times> str) list" where
  "headers_of API_KEY =
     [(ustr ''Authorization'', ustr ''Bearer '' @ API_KEY),
      (ustr ''Content-Type'', ustr ''application/json'')]"

record test_case =
  case_name :: str
  persian :: str
  expected :: str

definition test_cases :: "test_case list" where
  "test_cases =
     [\<lparr>case_name = ustr ''Simple drug dose question'',
       persian = [0x62F, 0x648, 0x632] @ ustr '' '' @ [0x645, 0x62A, 0x648, 0x67E, 0x631, 0x648, 0x644, 0x648, 0x644],
       expected = ustr ''metoprolol dose''\<rparr>,
      \<lparr>case_name = ustr ''Maximum dose question'',
       persian = [0x62D, 0x62F, 0x627, 0x6A9, 0x62B, 0x631] @ ustr '' '' @ [0x62F, 0x648, 0x632] @ ustr '' '' @ [0x648, 0x627, 0x646, 0x6A9, 0x648, 0x645, 0x627, 0x6CC, 0x633, 0x6CC, 0x646] @ ustr '' '' @ [0x686, 0x642, 0x62F, 0x631] @ ustr '' '' @ [0x627, 0x633, 0x62A, 0x61F],
       expected = ustr ''What is the maximum dose of vancomycin?''\<rparr>,
      \<lparr>case_name = ustr ''Mixed content'',
       persian = ustr ''maximum dose '' @ [0x648, 0x627, 0x646, 0x6A9, 0x648, 0x645, 0x627, 0x6CC, 0x633, 0x6CC, 0x646],
       expected = ustr ''maximum dose vancomycin''\<rparr>,
      \<lparr>case_name = ustr ''Drug interaction'',
       persian = [0x62A, 0x62F, 0x627, 0x62E, 0x644] @ ustr '' '' @ [0x62F, 0x627, 0x631, 0x648, 0x6CC, 0x6CC] @ ustr '' '' @ [0x622, 0x633, 0x67E, 0x631, 0x6CC, 0x646] @ ustr '' '' @ [0x648] @ ustr '' '' @ [0x648, 0x627, 0x631, 0x641, 0x627, 0x631, 0x6CC, 0x646],
       expected = ustr ''drug interaction aspirin and warfarin''\<rparr>]"

definition translation_request :: "str \<Rightarrow> test_case \<Rightarrow> request" where
  "translation_request API_KEY tc =
     \<lparr>url = BASE_URL @ ustr ''/responses'',
      headers = headers_of API_KEY,
      json_payload = JObj
        [(ustr ''model'', JStr (ustr ''gemini-2.5-flash-lite'')),
         (ustr ''input'', JStr (ustr ''Translate this Persian medical text to clear English. Return only the English translation: ''
                                  @ persian tc))],
      timeout = Some 30\<rparr>"

text \<open>Lines 76 to 100: what is printed for a response, and the exception that leaves
  the \<open>try\<close> block, if any.\<close>

definition show_response :: "response \<Rightarrow> event list \<times> finish" where
  "show_response resp =
     (if status_code resp = 200
      then (case json_body resp of
              None \<Rightarrow> ([], Raises JSONDecodeError)
            | Some result \<Rightarrow>
                (let out = [Print [S ([0x2705] @ ustr '' Success!'')],
                            Print [S (ustr ''Raw response: ''), Dumps result]]
                 in case py_in (ustr ''output_text'') result of
                      Inl e \<Rightarrow> (out, Raises e)
                    | Inr False \<Rightarrow>
                        (out @ [Print [S ([0x274C] @ ustr '' No '' @ [0x27] @ ustr ''output_text'' @ [0x27] @ ustr '' field in response'')]],
                         Returns)
                    | Inr True \<Rightarrow>
                        (case py_getitem result (ustr ''output_text'') of
                           Inl e \<Rightarrow> (out, Raises e)
                         | Inr v \<Rightarrow>
                             (case strip_quoted v of
                                Inl e \<Rightarrow> (out, Raises e)
                              | Inr translation \<Rightarrow>
                                  (out @
                                   [Print [S ([0x1F524] @ ustr '' Translation: '' @ [0x27]), S translation, S [0x27]],
                                    Print [S ([0x1F4CF] @ ustr '' Length: ''), I (int (length translation)),
                                           S (ustr '' characters'')],
                                    if translation \<noteq> []
                                    then Print [S ([0x2705] @ ustr '' Translation is not empty'')]
                                    else Print [S ([0x274C] @ ustr '' Translation is empty!'')]],
                                   Returns)))))
      else ([Print [S ([0x274C] @ ustr '' Error response:'')],
             case json_body resp of
               Some error_data \<Rightarrow> Print [Dumps error_data]
             | None \<Rightarrow> Print [S (body_text resp)]],
            Returns))"

text \<open>Lines 58 to 107: the \<open>try\<close> statement with its three handlers.\<close>

definition attempt :: "str \<Rightarrow> test_case \<Rightarrow> reply \<Rightarrow> event list \<times> finish" where
  "attempt API_KEY tc rep =
     (let sending = [Print [S ([0x1F4E4] @ ustr '' Sending request...'')]];
          (out, fin) =
            (case post (translation_request API_KEY tc) rep of
               None \<Rightarrow> (sending, Blocks)
             | Some (Inl e) \<Rightarrow> (sending, Raises e)
             | Some (Inr resp) \<Rightarrow>
                 (case show_response resp of
                    (shown, fin) \<Rightarrow>
                      (sending @
                       [Print [S ([0x23F1, 0xFE0F] @ ustr ''  Response time: ''), Elapsed, S (ustr ''ms'')],
                        Print [S ([0x1F4E5] @ ustr '' Status code: ''), I (status_code resp)]] @ shown,
                       fin)))
      in case fin of
           Raises e \<Rightarrow>
             (if is_Timeout e
              then (out @ [Print [S ([0x23F0] @ ustr '' Request timed out (30s)'')]], Returns)
              else if is_RequestException e
              then (out @ [Print [S ([0x1F310] @ ustr '' Network error: ''), E e]], Returns)
              else if is_Exception e
              then (out @ [Print [S ([0x1F4A5] @ ustr '' Unexpected error: ''), E e]], Returns)
              else (out, Raises e))
         | Returns \<Rightarrow> (out, Returns)
         | Blocks \<Rightarrow> (out, Blocks))"

text \<open>Lines 48 to 113: the loop over the test cases, numbered from 1. \<open>replies i\<close> is
  what the endpoint does with the request of test \<open>i\<close>.\<close>

fun translation_loop ::
  "str \<Rightarrow> nat \<Rightarrow> (nat \<times> test_case) list \<Rightarrow> (nat \<Rightarrow> reply) \<Rightarrow> event list \<times> finish" where
  "translation_loop API_KEY n [] replies = ([], Returns)"
| "translation_loop API_KEY n ((i, tc) # rest) replies =
     (let intro = [Print [S ([0xA] @ ustr ''Test ''), I (int i), S (ustr '': ''), S (case_name tc)],
                   Print [S (ustr ''Persian Input: ''), S (persian tc)]]
      in case attempt API_KEY tc (replies i) of
           (out, Returns) \<Rightarrow>
             (case translation_loop API_KEY n rest replies of
                (later, fin) \<Rightarrow>
                  (intro @ out @ [Print [S (replicate 50 0x2D)]]
                     @ (if i < n then [Sleep 1] else []) @ later,
                   fin))
         | (out, fin) \<Rightarrow> (intro @ out, fin))"

definition test_avalai_translation :: "str \<Rightarrow> (nat \<Rightarrow> reply) \<Rightarrow> event list \<times> finish" where
  "test_avalai_translation API_KEY replies =
     (case translation_loop API_KEY (length test_cases) (enumerate 1 test_cases) replies of
        (out, Returns) \<Rightarrow>
          ([Print [S ([0x1F9EA] @ ustr '' Testing AvalaAI Translation API'')],
            Print [S (replicate 50 0x3D)]] @ out
             @ [Print [S ([0xA, 0x1F3C1] @ ustr '' Test completed!'')]],
           Returns)
      | (out, fin) \<Rightarrow>
          ([Print [S ([0x1F9EA] @ ustr '' Testing AvalaAI Translation API'')],
            Print [S (replicate 50 0x3D)]] @ out,
           fin))"

definition connectivity_request :: "str \<Rightarrow> request" where
  "connectivity_request API_KEY =
     \<lparr>url = BASE_URL @ ustr ''/responses'',
      headers = headers_of API_KEY,
      json_payload = JObj
        [(ustr ''model'', JStr (ustr ''gemini-2.5-flash-lite'')),
         (ustr ''input'', JStr (ustr ''Hello, world!''))],
      timeout = Some 10\<rparr>"

text \<open>Lines 117 to 154. Everything after the first print is inside the \<open>try\<close>, whose
  one handler catches \<open>Exception\<close>.\<close>

definition test_api_connectivity :: "str \<Rightarrow> reply \<Rightarrow> event list \<times> finish" where
  "test_api_connectivity API_KEY rep =
     (let testing = [Print [S ([0x1F517] @ ustr '' Testing API connectivity...'')]];
          (out, fin) =
            (case post (connectivity_request API_KEY) rep of
               None \<Rightarrow> (testing, Blocks)
             | Some (Inl e) \<Rightarrow> (testing, Raises e)
             | Some (Inr resp) \<Rightarrow>
                 (let out = testing @
                        [Print [S (ustr ''Status: ''), I (status_code resp)],
                         if status_code resp = 401
                         then Print [S ([0x274C] @ ustr '' API Key is invalid or expired'')]
                         else if status_code resp = 200
                         then Print [S ([0x2705] @ ustr '' API Key is valid'')]
                         else Print [S ([0x26A0, 0xFE0F] @ ustr ''  Unexpected status code: ''),
                                     I (status_code resp)]]
                  in case json_body resp of
                       None \<Rightarrow> (out, Raises JSONDecodeError)
                     | Some v \<Rightarrow>
                         (out @ [Print [S (ustr ''Response:''), S (ustr '' ''), Str v]], Returns)))
      in case fin of
           Raises e \<Rightarrow>
             (if is_Exception e
              then (out @ [Print [S ([0x274C] @ ustr '' Connection failed: ''), E e]], Returns)
              else (out, Raises e))
         | Returns \<Rightarrow> (out, Returns)
         | Blocks \<Rightarrow> (out, Blocks))"

text \<open>Lines 156 to 165: the script. Reply 0 is the endpoint's to the connectivity
  request.\<close>

definition ai_main :: "str \<Rightarrow> (nat \<Rightarrow> reply) \<Rightarrow> event list \<times> finish" where
  "ai_main API_KEY replies =
     (let banner = [Print [S ([0x1F916] @ ustr '' AvalaAI Translation API Test'')],
                    Print [S (ustr ''================================'')]]
      in case test_api_connectivity API_KEY (replies 0) of
           (out, Returns) \<Rightarrow>
             (case test_avalai_translation API_KEY replies of
                (later, fin) \<Rightarrow> (banner @ out @ [Print []] @ later, fin))
         | (out, fin) \<Rightarrow> (banner @ out, fin))"

subsection \<open>api.py: the one-shot script\<close>

definition persian_text :: str where
  "persian_text = [0x645, 0x627, 0x6A9, 0x633, 0x6CC, 0x645, 0x645] @ ustr '' '' @ [0x62F, 0x648, 0x632] @ ustr '' '' @ [0x647, 0x6CC, 0x62F, 0x631, 0x648, 0x631, 0x644, 0x627, 0x632, 0x6CC, 0x646]"

definition api_request :: "str \<Rightarrow> request" where
  "api_request API_KEY =
     \<lparr>url = ustr ''https://api.avalai.ir/v1/chat/completions'',
      headers = headers_of API_KEY,
      json_payload = JObj
        [(ustr ''model'', JStr (ustr ''gemini-2.5-flash-lite'')),
         (ustr ''messages'', JArr
            [JObj [(ustr ''role'', JStr (ustr ''system'')),
                   (ustr ''content'', JStr (ustr ''Translate all user input Persian medical text to clear, precise English. Return only English, nothing else.''))],
             JObj [(ustr ''role'', JStr (ustr ''user'')),
                   (ustr ''content'', JStr persian_text)]])],
      timeout = None\<rparr>"

text \<open>Line 40: \<open>data['choices'][0]['message']['content']\<close>.\<close>

definition extract_translation :: "json \<Rightarrow> exc + json" where
  "extract_translation data =
     (case py_getitem data (ustr ''choices'') of
        Inl e \<Rightarrow> Inl e
      | Inr choices \<Rightarrow>
          (case py_getitem0 choices of
             Inl e \<Rightarrow> Inl e
           | Inr choice \<Rightarrow>
               (case py_getitem choice (ustr ''message'') of
                  Inl e \<Rightarrow> Inl e
                | Inr message \<Rightarrow> py_getitem message (ustr ''content''))))"

text \<open>Lines 31 to 45: the request is outside any \<open>try\<close>, and so is \<open>response.json()\<close>.\<close>

definition api_main :: "str \<Rightarrow> reply \<Rightarrow> event list \<times> finish" where
  "api_main API_KEY rep =
     (case post (api_request API_KEY) rep of
        None \<Rightarrow> ([], Blocks)
      | Some (Inl e) \<Rightarrow> ([], Raises e)
      | Some (Inr resp) \<Rightarrow>
          (let out = [Print [S (ustr ''Status:''), S (ustr '' ''), I (status_code resp)],
                      Print [S (ustr ''Body:''), S (ustr '' ''), S (body_text resp)]]
           in if ok resp
              then (case json_body resp of
                      None \<Rightarrow> (out, Raises JSONDecodeError)
                    | Some data \<Rightarrow>
                        (case extract_translation data of
                           Inr translation \<Rightarrow>
                             (out @ [Print [S (ustr ''TRANSLATED:''), S (ustr '' ''), Str translation]],
                              Returns)
                         | Inl e \<Rightarrow>
                             (if is_Exception e
                              then (out @ [Print [S (ustr ''ERROR extracting translation:''),
                                                  S (ustr '' ''), E e]],
                                    Returns)
                              else (out, Raises e))))
              else (out @ [Print [S (ustr ''FAIL!'')]], Returns)))"

section \<open>What the specification speaks of\<close>

subsection \<open>Entries and lines\<close>

text \<open>The entries of a listing that each printer shows: the console printer and the image
  printer go by the name alone, the icon printer by the kind of the entry as well.\<close>

definition tree_lists :: "str \<times> node \<Rightarrow> bool" where
  "tree_lists e = (fst e \<notin> exclude)"

definition build_tree_lists :: "str \<times> node \<Rightarrow> bool" where
  "build_tree_lists e =
     (fst e \<notin> set [ustr ''node_modules'', ustr ''.git'']
      \<and> \<not> startswith (fst e) (ustr ''.git'')
      \<and> fst e \<noteq> ustr ''tee.py'')"


definition print_tree_lists :: "str \<times> node \<Rightarrow> bool" where
  "print_tree_lists e = ((isdir (snd e) \<and> fst e \<notin> SKIP) \<or> isfile (snd e))"



text \<open>No directory that the descent reaches refuses to be listed.\<close>

fun listable :: "(str \<times> node \<Rightarrow> bool) \<Rightarrow> node \<Rightarrow> bool" where
  "listable keep (Dir es) = list_all (\<lambda>e. keep e \<longrightarrow> listable keep (snd e)) es"
| "listable keep Locked = False"
| "listable keep File = True"
| "listable keep Special = True"

text \<open>
  The rendering of one directory level as the specification words it. Each sibling has a
  label and the lines below it, which depend on the prefix handed down. Every sibling but
  the last gets the branch connector and hands down the prefix extended by a bar; the last
  gets the corner connector and hands down the prefix extended by blanks.
\<close>

fun siblings :: "str \<Rightarrow> (str \<times> (str \<Rightarrow> str list)) list \<Rightarrow> str list" where
  "siblings prefix [] = []"
| "siblings prefix ((label, below) # rest) =
     (prefix @ (if rest = [] then corner else branch) @ label)
       # below (prefix @ (if rest = [] then blank else bar))
       @ siblings prefix rest"


text \<open>The exception that a call of \<open>build_tree\<close> ended with, and the lines it
  returned: none when it raised.\<close>

definition raised :: "error + 'a \<Rightarrow> error option" where
  "raised r = (case r of Inl err \<Rightarrow> Some err | Inr v \<Rightarrow> None)"

definition build_tree_lines :: "(str \<Rightarrow> str) \<Rightarrow> node \<Rightarrow> str \<Rightarrow> str list" where
  "build_tree_lines lower t q = (case build_tree lower t q of Inr sub \<Rightarrow> sub | Inl err \<Rightarrow> [])"


definition print_tree_label :: "str \<times> node \<Rightarrow> str" where
  "print_tree_label e = (if isdir (snd e) then folder_icon else file_icon) @ fst e"

fun print_tree_item :: "str \<times> node \<Rightarrow> str \<times> (str \<Rightarrow> str list)" where
  "print_tree_item (entry, t) =
     (print_tree_label (entry, t), \<lambda>q. if isdir t then fst (print_tree t q) else [])"

subsection \<open>Reading the indentation back\<close>

text \<open>
  The parser of the round trip: it counts the continuation prefixes, four code points
  each, that a line starts with. The connector follows them, and the label follows the
  connector.
\<close>

fun indent_level :: "str \<Rightarrow> nat" where
  "indent_level (a # b # c # d # rest) =
     (if [a, b, c, d] = bar \<or> [a, b, c, d] = blank then Suc (indent_level rest) else 0)"
| "indent_level line = 0"

definition connector_of :: "str \<Rightarrow> str" where
  "connector_of line = take 4 (drop (4 * indent_level line) line)"

definition label_of :: "str \<Rightarrow> str" where
  "label_of line = drop (4 * indent_level line + 4) line"



subsection \<open>Orders of a listing\<close>

definition lexicographic :: "(str \<times> node) list \<Rightarrow> bool" where
  "lexicographic l = sorted (map fst l)"

definition dirs_first :: "(str \<times> node) list \<Rightarrow> bool" where
  "dirs_first l = (l = filter (\<lambda>e. isdir (snd e)) l @ filter (\<lambda>e. \<not> isdir (snd e)) l)"

definition dirs_first_lexicographic :: "(str \<times> node) list \<Rightarrow> bool" where
  "dirs_first_lexicographic l =
     (dirs_first l
      \<and> lexicographic (filter (\<lambda>e. isdir (snd e)) l)
      \<and> lexicographic (filter (\<lambda>e. \<not> isdir (snd e)) l))"

text \<open>\<open>str.lower\<close> on strings of ASCII characters.\<close>

definition lower_ascii :: "str \<Rightarrow> str" where
  "lower_ascii s = map (\<lambda>c. if 0x41 \<le> c \<and> c \<le> 0x5A then c + 32 else c) s"

subsection \<open>Two directories to try the theorems on\<close>

definition sample_entries :: "(str \<times> node) list" where
  "sample_entries =
     [(ustr ''src'', Dir [(ustr ''main.py'', File),
                          (ustr ''node_modules'', Dir [(ustr ''x.js'', File)])]),
      (ustr ''README.md'', File),
      (ustr ''.git'', Locked),
      (ustr ''pipe'', Special)]"

definition sample :: node where
  "sample = Dir sample_entries"

definition locked_sample :: node where
  "locked_sample =
     Dir [(ustr ''docs'', Dir [(ustr ''private'', Locked)]),
          (ustr ''a.txt'', File)]"

text \<open>A font to try the image on: every character 7.7 pixels wide.\<close>

definition console_font :: font where
  "console_font = \<lparr>getlength = (\<lambda>s. 7.7 * real (length s)), getbbox = (\<lambda>s. (0, 3, 15, 14))\<rparr>"

section \<open>Properties\<close>

text \<open>The first equation of each printer unfolds without end where the node is not given;
  the lemmas below state it for each kind of node.\<close>

declare tree.simps(1) [simp del]
declare build_tree.simps(1) [simp del]
declare print_tree.simps(1) [simp del]

subsection \<open>Listings\<close>



lemma set_tree_entries: "set (tree_entries es) = {e \<in> set es. tree_lists e}"
  by (auto simp: tree_entries_def tree_lists_def)


subsection \<open>Siblings\<close>


subsection \<open>The console printer\<close>

lemma tree_Dir:
  "tree (Dir es) p = tree_loop (length (tree_entries es)) (enumerate 0 (tree_entries es)) p"
  by (simp add: tree.simps(1) Let_def)

lemma tree_Locked: "tree Locked p = ([], Some PermissionError)"
  by (simp add: tree.simps(1))

lemma tree_File: "tree File p = ([], Some NotADirectoryError)"
  by (simp add: tree.simps(1))

lemma tree_Special: "tree Special p = ([], Some NotADirectoryError)"
  by (simp add: tree.simps(1))


lemma tree_loop_error:
  assumes "\<And>e q. e \<in> set l \<Longrightarrow> isdir (snd e) \<Longrightarrow>
             snd (tree (snd e) q) = (if good e then None else Some PermissionError)"
  shows "snd (tree_loop n (enumerate i l) p)
           = (if \<forall>e\<in>set l. isdir (snd e) \<longrightarrow> good e then None else Some PermissionError)"
  using assms
proof (induction l arbitrary: i)
  case Nil
  then show ?case by simp
next
  case (Cons e l)
  obtain entry t where e: "e = (entry, t)" by (cases e)
  have rest: "snd (tree_loop n (enumerate (Suc i) l) p)
           = (if \<forall>e\<in>set l. isdir (snd e) \<longrightarrow> good e then None else Some PermissionError)"
    using Cons.prems by (intro Cons.IH) auto
  show ?case
  proof (cases "isdir t")
    case True
    define q where "q = p @ (if int i = int n - 1 then blank else bar)"
    have "snd (tree t q) = (if good e then None else Some PermissionError)"
      using Cons.prems [of e q] e True by simp
    then show ?thesis
      using True e rest
      by (cases "tree t q"; cases "tree_loop n (enumerate (Suc i) l) p") (auto simp: q_def)
  next
    case False
    then show ?thesis
      using e rest by (cases "tree_loop n (enumerate (Suc i) l) p") auto
  qed
qed

lemma listable_Dir_iff:
  "listable keep (Dir es) = (\<forall>e\<in>set es. keep e \<longrightarrow> isdir (snd e) \<longrightarrow> listable keep (snd e))"
proof -
  have "\<not> isdir t \<Longrightarrow> listable keep t" for t
    by (cases t) simp_all
  then show ?thesis
    by (auto simp: list_all_iff)
qed

declare listable.simps(1) [simp del]

lemma tree_error:
  "isdir t \<Longrightarrow> snd (tree t p) = (if listable tree_lists t then None else Some PermissionError)"
proof (induction t arbitrary: p)
  case (Dir es)
  have "snd (tree (snd e) q) = (if listable tree_lists (snd e) then None else Some PermissionError)"
    if "e \<in> set (tree_entries es)" "isdir (snd e)" for e q
  proof -
    have "e \<in> set es" using that(1) by (simp add: set_tree_entries)
    moreover have "snd e \<in> Basic_BNFs.snds e" by (cases e) simp
    ultimately show ?thesis using Dir.IH that(2) by blast
  qed
  then have "snd (tree (Dir es) p)
      = (if \<forall>e\<in>set (tree_entries es). isdir (snd e) \<longrightarrow> listable tree_lists (snd e)
         then None else Some PermissionError)"
    unfolding tree_Dir by (rule tree_loop_error)
  moreover have "(\<forall>e\<in>set (tree_entries es). isdir (snd e) \<longrightarrow> listable tree_lists (snd e))
      = listable tree_lists (Dir es)"
    by (auto simp: listable_Dir_iff set_tree_entries)
  ultimately show ?case
    by simp
qed (simp_all add: tree_Locked)



subsection \<open>Any printer that renders each level as siblings\<close>

lemma in_snds: "snd e \<in> Basic_BNFs.snds e"
  by (cases e) simp





subsection \<open>Reading lines back\<close>

lemma length_connectors [simp]:
  "length corner = 4" "length branch = 4" "length bar = 4" "length blank = 4"
  by (simp_all add: corner_def branch_def bar_def blank_def ustr_def)

lemma connectors_differ [simp]:
  "corner \<noteq> branch" "corner \<noteq> bar" "corner \<noteq> blank" "branch \<noteq> bar" "branch \<noteq> blank"
  "bar \<noteq> blank" "branch \<noteq> corner"
  by (simp_all add: corner_def branch_def bar_def blank_def ustr_def)












subsection \<open>The image printer\<close>

lemma set_build_tree_entries:
  "set (build_tree_entries lower es) = {e \<in> set es. build_tree_lists e}"
  by (auto simp: build_tree_entries_def build_tree_lists_def)


lemma build_tree_Dir:
  "build_tree lower (Dir es) p
     = build_tree_loop lower (length (build_tree_entries lower es))
         (enumerate 0 (build_tree_entries lower es)) p"
  by (simp add: build_tree.simps(1) Let_def)

lemma build_tree_Locked: "build_tree lower Locked p = Inl PermissionError"
  by (simp add: build_tree.simps(1))

lemma build_tree_File: "build_tree lower File p = Inl NotADirectoryError"
  by (simp add: build_tree.simps(1))

lemma build_tree_Special: "build_tree lower Special p = Inl NotADirectoryError"
  by (simp add: build_tree.simps(1))

lemma raised_simps [simp]: "raised (Inl err) = Some err" "raised (Inr v) = None"
  by (simp_all add: raised_def)



lemma build_tree_loop_error:
  assumes "\<And>e q. e \<in> set l \<Longrightarrow> isdir (snd e) \<Longrightarrow>
             raised (build_tree lower (snd e) q) = (if good e then None else Some PermissionError)"
  shows "raised (build_tree_loop lower n (enumerate i l) p)
           = (if \<forall>e\<in>set l. isdir (snd e) \<longrightarrow> good e then None else Some PermissionError)"
  using assms
proof (induction l arbitrary: i)
  case Nil
  then show ?case by simp
next
  case (Cons e l)
  obtain entry t where e: "e = (entry, t)" by (cases e)
  have rest: "raised (build_tree_loop lower n (enumerate (Suc i) l) p)
           = (if \<forall>e\<in>set l. isdir (snd e) \<longrightarrow> good e then None else Some PermissionError)"
    using Cons.prems by (intro Cons.IH) auto
  show ?case
  proof (cases "isdir t")
    case True
    define q where "q = p @ (if int i = int n - 1 then blank else bar)"
    have "raised (build_tree lower t q) = (if good e then None else Some PermissionError)"
      using Cons.prems [of e q] e True by simp
    then show ?thesis
      using True e rest
      by (cases "build_tree lower t q"; cases "build_tree_loop lower n (enumerate (Suc i) l) p")
         (auto simp: q_def split: if_splits)
  next
    case False
    then show ?thesis
      using e rest by (cases "build_tree_loop lower n (enumerate (Suc i) l) p") auto
  qed
qed

lemma build_tree_error:
  "isdir t \<Longrightarrow>
     raised (build_tree lower t p)
       = (if listable build_tree_lists t then None else Some PermissionError)"
proof (induction t arbitrary: p)
  case (Dir es)
  have "raised (build_tree lower (snd e) q)
          = (if listable build_tree_lists (snd e) then None else Some PermissionError)"
    if "e \<in> set (build_tree_entries lower es)" "isdir (snd e)" for e q
  proof -
    have "e \<in> set es" using that(1) by (simp add: set_build_tree_entries)
    then show ?thesis using Dir.IH [OF _ in_snds] that(2) by blast
  qed
  then have "raised (build_tree lower (Dir es) p)
      = (if \<forall>e\<in>set (build_tree_entries lower es). isdir (snd e) \<longrightarrow> listable build_tree_lists (snd e)
         then None else Some PermissionError)"
    unfolding build_tree_Dir by (rule build_tree_loop_error)
  moreover have "(\<forall>e\<in>set (build_tree_entries lower es). isdir (snd e) \<longrightarrow> listable build_tree_lists (snd e))
      = listable build_tree_lists (Dir es)"
    by (auto simp: listable_Dir_iff set_build_tree_entries)
  ultimately show ?case
    by simp
qed (simp_all add: build_tree_Locked)




subsection \<open>The icon printer\<close>

lemma set_print_tree_entries:
  "set (print_tree_dirs es @ print_tree_files es) = {e \<in> set es. print_tree_lists e}"
  by (auto simp: print_tree_dirs_def print_tree_files_def print_tree_lists_def)

lemma isfile_not_isdir: "isfile t \<Longrightarrow> \<not> isdir t"
  by (cases t) simp_all


lemma print_tree_Dir:
  "print_tree (Dir es) p
     = print_tree_loop (length (print_tree_dirs es @ print_tree_files es))
         (enumerate 0 (print_tree_dirs es @ print_tree_files es)) p"
  by (simp add: print_tree.simps(1) Let_def)

lemma print_tree_Locked: "print_tree Locked p = ([], None)"
  by (simp add: print_tree.simps(1))

lemma print_tree_File: "print_tree File p = ([], Some NotADirectoryError)"
  by (simp add: print_tree.simps(1))

lemma print_tree_Special: "print_tree Special p = ([], Some NotADirectoryError)"
  by (simp add: print_tree.simps(1))

lemma print_tree_loop_siblings:
  assumes "\<And>e q. e \<in> set l \<Longrightarrow> isdir (snd e) \<Longrightarrow> snd (print_tree (snd e) q) = None"
    and "i + length l = n"
  shows "print_tree_loop n (enumerate i l) p = (siblings p (map print_tree_item l), None)"
  using assms
proof (induction l arbitrary: i)
  case Nil
  then show ?case by simp
next
  case (Cons e l)
  obtain entry t where e: "e = (entry, t)" by (cases e)
  have last: "(int i = int n - 1) = (l = [])"
    using Cons.prems(2) by auto
  have rest: "print_tree_loop n (enumerate (Suc i) l) p = (siblings p (map print_tree_item l), None)"
    using Cons.prems by (intro Cons.IH) auto
  show ?case
  proof (cases "isdir t")
    case True
    define q where "q = p @ (if l = [] then blank else bar)"
    have "snd (print_tree t q) = None"
      using Cons.prems(1) [of e q] e True by simp
    then obtain out where out: "print_tree t q = (out, None)"
      by (cases "print_tree t q") simp
    show ?thesis
      using True e last rest out by (simp add: q_def print_tree_label_def)
  next
    case False
    then show ?thesis
      using e last rest by (simp add: print_tree_label_def)
  qed
qed

lemma print_tree_returns: "isdir t \<Longrightarrow> snd (print_tree t p) = None"
proof (induction t arbitrary: p)
  case (Dir es)
  have "snd (print_tree (snd e) q) = None"
    if "e \<in> set (print_tree_dirs es @ print_tree_files es)" "isdir (snd e)" for e q
  proof -
    have "e \<in> set es" using that(1) set_print_tree_entries by blast
    then show ?thesis using Dir.IH [OF _ in_snds] that(2) by blast
  qed
  then have "print_tree_loop (length (print_tree_dirs es @ print_tree_files es))
         (enumerate 0 (print_tree_dirs es @ print_tree_files es)) p
      = (siblings p (map print_tree_item (print_tree_dirs es @ print_tree_files es)), None)"
    by (intro print_tree_loop_siblings) simp_all
  then show ?case
    by (simp add: print_tree_Dir)
qed (simp_all add: print_tree_Locked)

lemma print_tree_siblings:
  "print_tree (Dir es) p
     = (siblings p (map print_tree_item (print_tree_dirs es @ print_tree_files es)), None)"
  unfolding print_tree_Dir
  by (intro print_tree_loop_siblings) (simp_all add: print_tree_returns)



subsection \<open>The two sample directories\<close>

text \<open>The definitions that evaluate a printer on a given directory.\<close>

lemmas eval_defs =
  sample_def sample_entries_def locked_sample_def ustr_def exclude_def SKIP_def tree_lists_def build_tree_lists_def
  print_tree_lists_def startswith_def lower_ascii_def corner_def branch_def bar_def blank_def
  folder_icon_def file_icon_def tree_entries_def build_tree_entries_def print_tree_dirs_def
  print_tree_files_def tree.simps build_tree.simps print_tree.simps listable.simps
  print_tree_label_def build_tree_lines_def connector_of_def label_of_def





lemma tree_locked_sample:
  "tree locked_sample [] =
     ([branch @ ustr ''a.txt'', corner @ ustr ''docs'', blank @ corner @ ustr ''private''],
      Some PermissionError)"
  by (simp add: eval_defs)


lemma locked_sample_facts:
  "isdir locked_sample" "\<not> listable tree_lists locked_sample"
  "\<not> listable build_tree_lists locked_sample"
  by (simp_all add: eval_defs)


subsection \<open>Drawing\<close>

lemma draw_lines_eq:
  "draw_lines line_height y ls
     = map (\<lambda>k. ((10, y + int k * line_height), ls ! k)) [0 ..< length ls]"
proof (induction ls arbitrary: y)
  case Nil
  then show ?case by simp
next
  case (Cons l ls)
  have "map (\<lambda>k. ((10::int, y + int k * line_height), (l # ls) ! k)) [0 ..< length (l # ls)]
      = ((10, y), l) # map (\<lambda>k. ((10, (y + line_height) + int k * line_height), ls ! k)) [0 ..< length ls]"
    by (simp add: map_upt_Suc algebra_simps del: upt_Suc)
  then show ?case
    using Cons.IH [of "y + line_height"] by (simp del: upt_Suc)
qed



lemma render_lines_eq:
  assumes "ls \<noteq> []"
  shows "render_lines fnt ls =
     Inr \<lparr>size_px = (py_int (Max (set (map (getlength fnt) ls))) + 20,
                      (snd (snd (snd (getbbox fnt (ustr ''Ay'')))) + 4) * int (length ls) + 10),
          texts = draw_lines (snd (snd (snd (getbbox fnt (ustr ''Ay'')))) + 4) 5 ls\<rparr>"
proof -
  obtain l rest where ls: "ls = l # rest"
    using assms by (cases ls) auto
  have "fold max (map (getlength fnt) rest) (getlength fnt l)
          = Max (set (map (getlength fnt) ls))"
    unfolding ls list.map by (rule Max.set_eq_fold [symmetric])
  then show ?thesis
    by (simp add: render_lines_def ls Let_def)
qed

subsection \<open>C1: one line per entry\<close>




subsection \<open>Connectors\<close>



subsection \<open>C2: branch and corner connectors\<close>



subsection \<open>C3: the round trip through the indentation\<close>



subsection \<open>C6: directories that refuse to be listed\<close>

text \<open>
  Claim C6. For a root directory, the console printer ends with \<open>PermissionError\<close>
  exactly when it reaches a directory that cannot be listed, and so does \<open>build_tree\<close>,
  which takes \<open>tree_to_jpg\<close> with it: both let the exception through. The icon printer
  never ends with an exception: for an unlistable directory it returns at once, nothing
  printed for that subtree.
\<close>

theorem permission_errors:
  assumes "isdir t"
  shows "snd (tree t p) = (if listable tree_lists t then None else Some PermissionError)
       \<and> raised (build_tree lower t p)
           = (if listable build_tree_lists t then None else Some PermissionError)
       \<and> (\<not> listable build_tree_lists t \<longrightarrow>
            tree_to_jpg lower fnt root_name t output_file = Inl PermissionError)
       \<and> snd (print_tree t p) = None
       \<and> tree Locked p = ([], Some PermissionError)
       \<and> build_tree lower Locked p = Inl PermissionError
       \<and> print_tree Locked p = ([], None)"
proof (intro conjI impI)
  show "snd (tree t p) = (if listable tree_lists t then None else Some PermissionError)"
    using assms by (rule tree_error)
  show b: "raised (build_tree lower t p)
           = (if listable build_tree_lists t then None else Some PermissionError)" for p
    using assms by (rule build_tree_error)
  show "tree_to_jpg lower fnt root_name t output_file = Inl PermissionError"
    if "\<not> listable build_tree_lists t"
    using b [of "[]"] that
    by (cases "build_tree lower t []") (simp_all add: tree_to_jpg_def)
  show "snd (print_tree t p) = None"
    using assms by (rule print_tree_returns)
qed (simp_all add: tree_Locked build_tree_Locked print_tree_Locked)

text \<open>On the sample with an unlistable directory: the console printer stops after three
  lines, \<open>build_tree\<close> returns none, the icon printer prints all three.\<close>

theorem permission_errors_witness:
  "isdir locked_sample \<and> \<not> listable tree_lists locked_sample
   \<and> \<not> listable build_tree_lists locked_sample
   \<and> tree locked_sample []
       = ([branch @ ustr ''a.txt'', corner @ ustr ''docs'', blank @ corner @ ustr ''private''],
          Some PermissionError)
   \<and> build_tree lower_ascii locked_sample [] = Inl PermissionError
   \<and> print_tree locked_sample []
       = ([branch @ folder_icon @ ustr ''docs'', bar @ corner @ folder_icon @ ustr ''private'',
           corner @ file_icon @ ustr ''a.txt''], None)"
  using permission_errors [of locked_sample "[]" lower_ascii] locked_sample_facts tree_locked_sample
  by (auto simp: eval_defs raised_def split: sum.splits)

subsection \<open>Orders\<close>

lemma lexicographic_tree_entries: "lexicographic (tree_entries es)"
  by (simp add: lexicographic_def tree_entries_def)

lemma print_tree_dirs_isdir: "e \<in> set (print_tree_dirs es) \<Longrightarrow> isdir (snd e)"
  by (simp add: print_tree_dirs_def)

lemma print_tree_files_not_isdir: "e \<in> set (print_tree_files es) \<Longrightarrow> \<not> isdir (snd e)"
  by (auto simp: print_tree_files_def dest: isfile_not_isdir)

lemma filter_print_tree_entries:
  "filter (\<lambda>e. isdir (snd e)) (print_tree_dirs es) = print_tree_dirs es"
  "filter (\<lambda>e. \<not> isdir (snd e)) (print_tree_dirs es) = []"
  "filter (\<lambda>e. isdir (snd e)) (print_tree_files es) = []"
  "filter (\<lambda>e. \<not> isdir (snd e)) (print_tree_files es) = print_tree_files es"
  using print_tree_dirs_isdir print_tree_files_not_isdir
  by (simp_all add: filter_id_conv filter_empty_conv)

lemma dirs_first_lexicographic_print_tree:
  "dirs_first_lexicographic (print_tree_dirs es @ print_tree_files es)"
proof -
  have "sorted (map fst (print_tree_dirs es))" "sorted (map fst (print_tree_files es))"
    by (simp_all add: print_tree_dirs_def print_tree_files_def sorted_filter)
  then show ?thesis
    by (simp add: dirs_first_lexicographic_def dirs_first_def lexicographic_def
        filter_print_tree_entries)
qed

lemma sorted_flag_split:
  fixes k :: "'a \<Rightarrow> 'b::linorder"
  assumes "sorted (map (\<lambda>x. (b x, k x)) xs)"
  shows "xs = filter (\<lambda>x. \<not> b x) xs @ filter b xs"
  using assms
proof (induction xs)
  case Nil
  then show ?case by simp
next
  case (Cons x xs)
  have rest: "xs = filter (\<lambda>x. \<not> b x) xs @ filter b xs"
    using Cons by simp
  show ?case
  proof (cases "b x")
    case True
    have "b y" if "y \<in> set xs" for y
    proof -
      have "(b x, k x) \<le> (b y, k y)"
        using Cons.prems that by auto
      then show ?thesis
        using True by (auto simp: less_eq_prod_def)
    qed
    then have "filter (\<lambda>x. \<not> b x) xs = []" "filter b xs = xs"
      by (simp_all add: filter_empty_conv filter_id_conv)
    then show ?thesis
      using True by simp
  next
    case False
    then show ?thesis
      using rest by simp
  qed
qed

lemma sorted_flag_group:
  fixes k :: "'a \<Rightarrow> 'b::linorder"
  assumes "sorted (map (\<lambda>x. (b x, k x)) xs)"
  shows "sorted (map k (filter (\<lambda>x. b x = c) xs))"
proof -
  have "sorted (map (\<lambda>x. (b x, k x)) (filter (\<lambda>x. b x = c) xs))"
    using assms by (rule sorted_filter)
  moreover have "sorted (map (\<lambda>x. (b x, k x)) ys) \<Longrightarrow> \<forall>y\<in>set ys. b y = c \<Longrightarrow> sorted (map k ys)"
    for ys
    by (induction ys) (auto simp: less_eq_prod_def)
  ultimately show ?thesis
    by simp
qed

lemma build_tree_entries_order:
  "dirs_first (build_tree_entries lower es)"
  "sorted (map (\<lambda>e. lower (fst e)) (filter (\<lambda>e. isdir (snd e)) (build_tree_entries lower es)))"
  "sorted (map (\<lambda>e. lower (fst e)) (filter (\<lambda>e. \<not> isdir (snd e)) (build_tree_entries lower es)))"
proof -
  have s: "sorted (map (\<lambda>e. (\<not> isdir (snd e), lower (fst e))) (build_tree_entries lower es))"
    by (simp add: build_tree_entries_def)
  show "dirs_first (build_tree_entries lower es)"
    using sorted_flag_split [OF s] by (simp add: dirs_first_def)
  show "sorted (map (\<lambda>e. lower (fst e)) (filter (\<lambda>e. isdir (snd e)) (build_tree_entries lower es)))"
    using sorted_flag_group [OF s, of False] by simp
  show "sorted (map (\<lambda>e. lower (fst e)) (filter (\<lambda>e. \<not> isdir (snd e)) (build_tree_entries lower es)))"
    using sorted_flag_group [OF s, of True] by simp
qed

subsection \<open>C4: the order of a listing\<close>

text \<open>
  Claim C4 as it is stated fails for the image printer: it lists the files \<open>B\<close> and
  \<open>a\<close> as \<open>a\<close>, \<open>B\<close>, which is neither the lexicographic order nor directories
  first with each group in lexicographic order.
\<close>

theorem listing_order_counterexample:
  "build_tree_entries lower_ascii [(ustr ''B'', File), (ustr ''a'', File)]
     = [(ustr ''a'', File), (ustr ''B'', File)]
   \<and> \<not> lexicographic (build_tree_entries lower_ascii [(ustr ''B'', File), (ustr ''a'', File)])
   \<and> \<not> dirs_first_lexicographic
         (build_tree_entries lower_ascii [(ustr ''B'', File), (ustr ''a'', File)])"
  by (simp add: build_tree_entries_def lower_ascii_def startswith_def ustr_def lexicographic_def
      dirs_first_lexicographic_def dirs_first_def)

text \<open>
  Claim C4, amended. The console printer lists the entries in lexicographic order of their
  names. The icon printer lists the directories it keeps before the regular files, each
  group in lexicographic order. The image printer lists directories before all other
  entries, each group in the order of the lowercased names.
\<close>

theorem listing_order:
  "lexicographic (tree_entries es)
   \<and> dirs_first_lexicographic (print_tree_dirs es @ print_tree_files es)
   \<and> dirs_first (build_tree_entries lower es)
   \<and> sorted (map (\<lambda>e. lower (fst e))
        (filter (\<lambda>e. isdir (snd e)) (build_tree_entries lower es)))
   \<and> sorted (map (\<lambda>e. lower (fst e))
        (filter (\<lambda>e. \<not> isdir (snd e)) (build_tree_entries lower es)))"
  using lexicographic_tree_entries dirs_first_lexicographic_print_tree build_tree_entries_order
  by simp

text \<open>On the entries of the sample directory.\<close>

theorem listing_order_witness:
  "map fst (tree_entries sample_entries) = [ustr ''README.md'', ustr ''pipe'', ustr ''src'']
   \<and> lexicographic (tree_entries sample_entries)
   \<and> map fst (print_tree_dirs sample_entries @ print_tree_files sample_entries)
       = [ustr ''src'', ustr ''README.md'']
   \<and> dirs_first_lexicographic (print_tree_dirs sample_entries @ print_tree_files sample_entries)
   \<and> map fst (build_tree_entries lower_ascii sample_entries)
       = [ustr ''src'', ustr ''pipe'', ustr ''README.md'']
   \<and> dirs_first (build_tree_entries lower_ascii sample_entries)"
  using listing_order [of sample_entries lower_ascii]
  by (simp add: eval_defs)

subsection \<open>What the icon printer shows\<close>

lemma label_in_siblings:
  assumes "e \<in> set l"
  shows "p @ corner @ fst (item e) \<in> set (siblings p (map item l))
       \<or> p @ branch @ fst (item e) \<in> set (siblings p (map item l))"
  using assms
proof (induction l)
  case Nil
  then show ?case by simp
next
  case (Cons x l)
  obtain label below where it: "item x = (label, below)" by (cases "item x")
  show ?case
  proof (cases "e = x")
    case True
    then show ?thesis
      using it by simp
  next
    case False
    then have "e \<in> set l" using Cons.prems by simp
    then show ?thesis
      using Cons.IH it by auto
  qed
qed

lemma print_tree_filter:
  assumes "\<And>e. e \<in> set es \<Longrightarrow> print_tree_lists e \<Longrightarrow> Q e"
  shows "print_tree (Dir (filter Q es)) p = print_tree (Dir es) p"
proof -
  have "filter (\<lambda>d. isdir (snd d) \<and> fst d \<notin> SKIP) (filter Q es)
          = filter (\<lambda>d. isdir (snd d) \<and> fst d \<notin> SKIP) es"
    "filter (\<lambda>f. isfile (snd f)) (filter Q es) = filter (\<lambda>f. isfile (snd f)) es"
    using assms by (auto simp: print_tree_lists_def intro!: filter_cong)
  then have "print_tree_dirs (filter Q es) = print_tree_dirs es"
    "print_tree_files (filter Q es) = print_tree_files es"
    by (simp_all add: print_tree_dirs_def print_tree_files_def filter_sort)
  then show ?thesis
    by (simp add: print_tree_Dir)
qed

subsection \<open>C10: the skip set of the icon printer\<close>

text \<open>
  Claim C10. In the icon printer, every regular file of a directory has its line, whatever
  its name, also a name in \<open>SKIP\<close>. The output is the same as for the directory without
  its entries that are neither directories nor regular files, and the same as for the
  directory without its directories named in \<open>SKIP\<close>: neither leaves a trace.
\<close>

theorem icon_printer_skips_directories_only:
  "((entry, t) \<in> set es \<and> isfile t \<longrightarrow>
      p @ corner @ file_icon @ entry \<in> set (fst (print_tree (Dir es) p))
      \<or> p @ branch @ file_icon @ entry \<in> set (fst (print_tree (Dir es) p)))
   \<and> print_tree (Dir (filter (\<lambda>e. isdir (snd e) \<or> isfile (snd e)) es)) p = print_tree (Dir es) p
   \<and> print_tree (Dir (filter (\<lambda>e. \<not> (isdir (snd e) \<and> fst e \<in> SKIP)) es)) p
       = print_tree (Dir es) p"
proof (intro conjI impI)
  assume a: "(entry, t) \<in> set es \<and> isfile t"
  then have "(entry, t) \<in> set (print_tree_dirs es @ print_tree_files es)"
    by (simp add: print_tree_files_def)
  then have "p @ corner @ fst (print_tree_item (entry, t))
               \<in> set (siblings p (map print_tree_item (print_tree_dirs es @ print_tree_files es)))
           \<or> p @ branch @ fst (print_tree_item (entry, t))
               \<in> set (siblings p (map print_tree_item (print_tree_dirs es @ print_tree_files es)))"
    by (rule label_in_siblings)
  moreover have "\<not> isdir t"
    using a by (simp add: isfile_not_isdir)
  ultimately show "p @ corner @ file_icon @ entry \<in> set (fst (print_tree (Dir es) p))
      \<or> p @ branch @ file_icon @ entry \<in> set (fst (print_tree (Dir es) p))"
    by (simp add: print_tree_siblings print_tree_label_def)
next
  show "print_tree (Dir (filter (\<lambda>e. isdir (snd e) \<or> isfile (snd e)) es)) p = print_tree (Dir es) p"
    by (rule print_tree_filter) (auto simp: print_tree_lists_def)
  show "print_tree (Dir (filter (\<lambda>e. \<not> (isdir (snd e) \<and> fst e \<in> SKIP)) es)) p
       = print_tree (Dir es) p"
    by (rule print_tree_filter) (auto simp: print_tree_lists_def dest: isfile_not_isdir)
qed

text \<open>A regular file named \<open>node_modules\<close> beside a named pipe: one line, for the
  file.\<close>

theorem icon_printer_skips_directories_only_witness:
  "(ustr ''node_modules'', File) \<in> set [(ustr ''node_modules'', File), (ustr ''pipe'', Special)]
   \<and> isfile File \<and> ustr ''node_modules'' \<in> SKIP
   \<and> print_tree (Dir [(ustr ''node_modules'', File), (ustr ''pipe'', Special)]) []
       = ([corner @ file_icon @ ustr ''node_modules''], None)
   \<and> print_tree (Dir [(ustr ''node_modules'', File)]) []
       = print_tree (Dir [(ustr ''node_modules'', File), (ustr ''pipe'', Special)]) []"
  using icon_printer_skips_directories_only
    [of "ustr ''node_modules''" File "[(ustr ''node_modules'', File), (ustr ''pipe'', Special)]" "[]"]
  by (simp add: eval_defs)

subsection \<open>C9: the image holds the lines\<close>

lemma py_int_bound: "x < real_of_int (py_int x) + 1"
  unfolding py_int_def by (simp; linarith)

text \<open>
  Claim C9. For lines that are not empty as a sequence and any font, the image is created:
  every line's width plus the left margin of 10 is at most the image width, the line height
  times the number of lines is at most the image height, and line \<open>k\<close> is drawn at
  \<open>x = 10\<close> and \<open>y = 5 + k * line_height\<close>.
\<close>

theorem image_holds_lines:
  assumes "ls \<noteq> []"
  shows "\<exists>img. render_lines fnt ls = Inr img
           \<and> list_all (\<lambda>line. getlength fnt line + 10 \<le> real_of_int (fst (size_px img))) ls
           \<and> (snd (snd (snd (getbbox fnt (ustr ''Ay'')))) + 4) * int (length ls) \<le> snd (size_px img)
           \<and> texts img
               = map (\<lambda>k. ((10, 5 + int k * (snd (snd (snd (getbbox fnt (ustr ''Ay'')))) + 4)), ls ! k))
                   [0 ..< length ls]"
proof -
  define max_width where "max_width = Max (set (map (getlength fnt) ls))"
  have "getlength fnt line + 10 \<le> real_of_int (py_int max_width + 20)" if "line \<in> set ls" for line
  proof -
    have "getlength fnt line \<le> max_width"
      unfolding max_width_def using that by (intro Max_ge) auto
    then show ?thesis
      using py_int_bound [of max_width] by simp
  qed
  then show ?thesis
    using assms by (simp add: render_lines_eq draw_lines_eq list_all_iff max_width_def)
qed

text \<open>Two lines in the sample font: the wider one is 9 characters of 7.7 pixels.\<close>

theorem image_holds_lines_witness:
  "[ustr ''root'', branch @ ustr ''a.txt''] \<noteq> []
   \<and> render_lines console_font [ustr ''root'', branch @ ustr ''a.txt'']
       = Inr \<lparr>size_px = (89, 46),
              texts = [((10, 5), ustr ''root''), ((10, 23), branch @ ustr ''a.txt'')]\<rparr>"
proof -
  have "[ustr ''root'', branch @ ustr ''a.txt''] \<noteq> []"
    by simp
  from image_holds_lines [OF this, of console_font]
  obtain img where img: "render_lines console_font [ustr ''root'', branch @ ustr ''a.txt''] = Inr img"
    and "texts img = map (\<lambda>k. ((10, 5 + int k * (snd (snd (snd (getbbox console_font (ustr ''Ay'')))) + 4)),
                   [ustr ''root'', branch @ ustr ''a.txt''] ! k))
                   [0 ..< length [ustr ''root'', branch @ ustr ''a.txt'']]"
    by blast
  then have "texts img = [((10, 5), ustr ''root''), ((10, 23), branch @ ustr ''a.txt'')]"
    by (simp add: console_font_def upt_rec)
  moreover have "size_px img = (89, 46)"
    using img by (auto simp: render_lines_def console_font_def py_int_def ustr_def branch_def Let_def)
  ultimately show ?thesis
    using img by simp
qed

subsection \<open>C7: the translation printed\<close>

lemma strip_hello:
  assumes "list_all isspace ws1" "list_all isspace ws2"
  shows "strip_chars [0x22] (strip (ws1 @ [0x22] @ ustr ''hello'' @ [0x22] @ ws2)) = ustr ''hello''"
proof -
  have q: "\<not> isspace 0x22"
    by (simp add: isspace_def)
  have leading: "dropWhile isspace (ws1 @ ys) = dropWhile isspace ys" for ys
    using assms(1) by (intro dropWhile_append2) (simp add: list_all_iff)
  have trailing: "dropWhile isspace (rev ws2 @ ys) = dropWhile isspace ys" for ys
    using assms(2) by (intro dropWhile_append2) (simp add: list_all_iff)
  have "strip (ws1 @ [0x22] @ ustr ''hello'' @ [0x22] @ ws2) = [0x22] @ ustr ''hello'' @ [0x22]"
    using q by (simp add: strip_def strip_where_def leading trailing)
  then show ?thesis
    by (simp add: strip_chars_def strip_where_def ustr_def)
qed

lemma translation_loop_returns:
  assumes "\<And>i tc. (i, tc) \<in> set cases \<Longrightarrow> attempt API_KEY tc (replies i) = (out, Returns)"
  shows "snd (translation_loop API_KEY n cases replies) = Returns
       \<and> (cases \<noteq> [] \<longrightarrow> set out \<subseteq> set (fst (translation_loop API_KEY n cases replies)))"
  using assms
proof (induction cases)
  case Nil
  then show ?case by simp
next
  case (Cons c cases)
  obtain i tc where c: "c = (i, tc)" by (cases c)
  have "attempt API_KEY tc (replies i) = (out, Returns)"
    using Cons.prems [of i tc] c by simp
  moreover have "snd (translation_loop API_KEY n cases replies) = Returns"
    using Cons.IH Cons.prems by simp
  ultimately show ?case
    using c by (cases "translation_loop API_KEY n cases replies") (auto simp: Let_def)
qed

text \<open>
  Claim C7. Let the endpoint answer with status 200 and a body whose \<open>output_text\<close> is
  \<open>hello\<close> in double quotes, with any whitespace around the quotes. Then one test case
  prints the translation line with \<open>hello\<close>, quotes and whitespace stripped, and so does
  the whole test function when every request is answered so; both return.
\<close>

theorem translation_printed:
  assumes "status_code resp = 200"
    and "json_body resp
           = Some (JObj [(ustr ''output_text'', JStr (ws1 @ [0x22] @ ustr ''hello'' @ [0x22] @ ws2))])"
    and "list_all isspace ws1" "list_all isspace ws2"
  shows "snd (attempt API_KEY tc (Responds resp)) = Returns
       \<and> Print [S ([0x1F524] @ ustr '' Translation: '' @ [0x27]), S (ustr ''hello''), S [0x27]]
           \<in> set (fst (attempt API_KEY tc (Responds resp)))
       \<and> snd (test_avalai_translation API_KEY (\<lambda>i. Responds resp)) = Returns
       \<and> Print [S ([0x1F524] @ ustr '' Translation: '' @ [0x27]), S (ustr ''hello''), S [0x27]]
           \<in> set (fst (test_avalai_translation API_KEY (\<lambda>i. Responds resp)))"
proof -
  let ?line = "Print [S ([0x1F524] @ ustr '' Translation: '' @ [0x27]), S (ustr ''hello''), S [0x27]]"
  have "show_response resp =
     ([Print [S ([0x2705] @ ustr '' Success!'')],
       Print [S (ustr ''Raw response: ''),
              Dumps (JObj [(ustr ''output_text'', JStr (ws1 @ [0x22] @ ustr ''hello'' @ [0x22] @ ws2))])],
       ?line,
       Print [S ([0x1F4CF] @ ustr '' Length: ''), I 5, S (ustr '' characters'')],
       Print [S ([0x2705] @ ustr '' Translation is not empty'')]],
      Returns)"
    using assms(1,2) strip_hello [OF assms(3,4)]
    by (simp add: show_response_def) (simp add: ustr_def)
  then obtain out where out: "\<And>tc. attempt API_KEY tc (Responds resp) = (out, Returns)"
    and line: "?line \<in> set out"
    by (simp add: attempt_def post_def)
  have "test_cases \<noteq> []"
    by (simp add: test_cases_def)
  then have cases: "enumerate 1 test_cases \<noteq> []"
    by (metis length_0_conv length_enumerate)
  have loop: "snd (translation_loop API_KEY (length test_cases) (enumerate 1 test_cases)
                  (\<lambda>i. Responds resp)) = Returns"
    "set out \<subseteq> set (fst (translation_loop API_KEY (length test_cases) (enumerate 1 test_cases)
                  (\<lambda>i. Responds resp)))"
    using translation_loop_returns [of "enumerate 1 test_cases" API_KEY "\<lambda>i. Responds resp" out
        "length test_cases"] out cases
    by simp_all
  have "snd (test_avalai_translation API_KEY (\<lambda>i. Responds resp)) = Returns"
    "set out \<subseteq> set (fst (test_avalai_translation API_KEY (\<lambda>i. Responds resp)))"
    using loop
    by (cases "translation_loop API_KEY (length test_cases) (enumerate 1 test_cases)
                  (\<lambda>i. Responds resp)"; auto simp: test_avalai_translation_def)+
  then show ?thesis
    using out line by auto
qed

text \<open>With no whitespace around the quotes: all that one test case prints.\<close>

theorem translation_printed_witness:
  "fst (attempt (ustr ''secret'') (hd test_cases)
     (Responds \<lparr>status_code = 200,
                json_body = Some (JObj [(ustr ''output_text'', JStr ([0x22] @ ustr ''hello'' @ [0x22]))]),
                body_text = []\<rparr>))
   = [Print [S ([0x1F4E4] @ ustr '' Sending request...'')],
      Print [S ([0x23F1, 0xFE0F] @ ustr ''  Response time: ''), Elapsed, S (ustr ''ms'')],
      Print [S ([0x1F4E5] @ ustr '' Status code: ''), I 200],
      Print [S ([0x2705] @ ustr '' Success!'')],
      Print [S (ustr ''Raw response: ''),
             Dumps (JObj [(ustr ''output_text'', JStr ([0x22] @ ustr ''hello'' @ [0x22]))])],
      Print [S ([0x1F524] @ ustr '' Translation: '' @ [0x27]), S (ustr ''hello''), S [0x27]],
      Print [S ([0x1F4CF] @ ustr '' Length: ''), I 5, S (ustr '' characters'')],
      Print [S ([0x2705] @ ustr '' Translation is not empty'')]]
   \<and> Print [S ([0x1F524] @ ustr '' Translation: '' @ [0x27]), S (ustr ''hello''), S [0x27]]
       \<in> set (fst (test_avalai_translation (ustr ''secret'')
            (\<lambda>i. Responds \<lparr>status_code = 200,
                json_body = Some (JObj [(ustr ''output_text'', JStr ([0x22] @ ustr ''hello'' @ [0x22]))]),
                body_text = []\<rparr>)))"
proof -
  have "Print [S ([0x1F524] @ ustr '' Translation: '' @ [0x27]), S (ustr ''hello''), S [0x27]]
       \<in> set (fst (test_avalai_translation (ustr ''secret'')
            (\<lambda>i. Responds \<lparr>status_code = 200,
                json_body = Some (JObj [(ustr ''output_text'', JStr ([0x22] @ ustr ''hello'' @ [0x22]))]),
                body_text = []\<rparr>)))"
    using translation_printed [of "\<lparr>status_code = 200,
                json_body = Some (JObj [(ustr ''output_text'', JStr ([0x22] @ ustr ''hello'' @ [0x22]))]),
                body_text = []\<rparr>" "[]" "[]" "ustr ''secret''" "hd test_cases"]
    by simp
  moreover have "fst (attempt (ustr ''secret'') (hd test_cases)
     (Responds \<lparr>status_code = 200,
                json_body = Some (JObj [(ustr ''output_text'', JStr ([0x22] @ ustr ''hello'' @ [0x22]))]),
                body_text = []\<rparr>))
   = [Print [S ([0x1F4E4] @ ustr '' Sending request...'')],
      Print [S ([0x23F1, 0xFE0F] @ ustr ''  Response time: ''), Elapsed, S (ustr ''ms'')],
      Print [S ([0x1F4E5] @ ustr '' Status code: ''), I 200],
      Print [S ([0x2705] @ ustr '' Success!'')],
      Print [S (ustr ''Raw response: ''),
             Dumps (JObj [(ustr ''output_text'', JStr ([0x22] @ ustr ''hello'' @ [0x22]))])],
      Print [S ([0x1F524] @ ustr '' Translation: '' @ [0x27]), S (ustr ''hello''), S [0x27]],
      Print [S ([0x1F4CF] @ ustr '' Length: ''), I 5, S (ustr '' characters'')],
      Print [S ([0x2705] @ ustr '' Translation is not empty'')]]"
    by (simp add: attempt_def post_def show_response_def strip_chars_def strip_def strip_where_def
        isspace_def ustr_def)
  ultimately show ?thesis
    by simp
qed

subsection \<open>C8: an invalid key\<close>

text \<open>
  Claim C8. When the endpoint answers with status 401, the connectivity check prints that
  the key is invalid or expired, and returns: no exception reaches its caller.
\<close>

theorem invalid_key_reported:
  assumes "status_code resp = 401"
  shows "snd (test_api_connectivity API_KEY (Responds resp)) = Returns
       \<and> Print [S ([0x274C] @ ustr '' API Key is invalid or expired'')]
           \<in> set (fst (test_api_connectivity API_KEY (Responds resp)))"
  using assms
  by (cases "json_body resp")
     (simp_all add: test_api_connectivity_def post_def is_Exception_def Let_def)

text \<open>With a body that is not JSON: all that the check prints.\<close>

theorem invalid_key_reported_witness:
  "test_api_connectivity (ustr ''secret'')
     (Responds \<lparr>status_code = 401, json_body = None, body_text = ustr ''Unauthorized''\<rparr>)
   = ([Print [S ([0x1F517] @ ustr '' Testing API connectivity...'')],
       Print [S (ustr ''Status: ''), I 401],
       Print [S ([0x274C] @ ustr '' API Key is invalid or expired'')],
       Print [S ([0x274C] @ ustr '' Connection failed: ''), E JSONDecodeError]],
      Returns)
   \<and> Print [S ([0x274C] @ ustr '' API Key is invalid or expired'')]
       \<in> set (fst (test_api_connectivity (ustr ''secret'')
            (Responds \<lparr>status_code = 401, json_body = None, body_text = ustr ''Unauthorized''\<rparr>)))"
proof -
  have "Print [S ([0x274C] @ ustr '' API Key is invalid or expired'')]
       \<in> set (fst (test_api_connectivity (ustr ''secret'')
            (Responds \<lparr>status_code = 401, json_body = None, body_text = ustr ''Unauthorized''\<rparr>)))"
    using invalid_key_reported [of "\<lparr>status_code = 401, json_body = None,
      body_text = ustr ''Unauthorized''\<rparr>" "ustr ''secret''"]
    by simp
  then show ?thesis
    by (simp add: test_api_connectivity_def post_def is_Exception_def Let_def)
qed

subsection \<open>C5: timeouts\<close>

text \<open>
  Claim C5 does not hold of the one-shot script. Its request carries no timeout, and when
  no answer ever comes the script does not return. The two requests of the smoke test carry
  timeouts of 10 and 30 seconds, and there the same silence ends in a printed message.
\<close>

theorem one_shot_post_has_no_timeout:
  "timeout (api_request API_KEY) = None
   \<and> api_main API_KEY NoReply = ([], Blocks)
   \<and> timeout (connectivity_request API_KEY) = Some 10
   \<and> timeout (translation_request API_KEY tc) = Some 30
   \<and> snd (test_api_connectivity API_KEY NoReply) = Returns
   \<and> snd (attempt API_KEY tc NoReply) = Returns"
  by (simp add: api_request_def api_main_def post_def connectivity_request_def
      translation_request_def test_api_connectivity_def attempt_def is_Exception_def
      is_Timeout_def Let_def)

end
